theory Spec2Isabelle
  imports Main "HOL-Library.AList" "HOL-Library.Char_ord" "HOL-Library.List_Lexorder"
begin

section \<open>The tutorial synchroniser notebook\<close>

text \<open>
  The release notebook has two code cells. The first lists the released tutorials
  (the archive directory) and the tutorials of the workspace, and derives three lists of
  basenames: \<open>refreshed\<close>, \<open>added\<close> and \<open>removed\<close>. The second asks for a
  confirmation, copies \<open>refreshed + added\<close> from the archive into the workspace and
  then removes \<open>removed\<close> from the workspace.

  Python strings are \<open>string\<close>; \<open>sorted\<close> on strings is the lexicographic order on
  character codes, which is the order of \<open>HOL-Library.List_Lexorder\<close> over
  \<open>HOL-Library.Char_ord\<close>.
\<close>

subsection \<open>The file system and the library calls\<close>

text \<open>
  A file system is an association list from absolute paths to file contents; the order of
  the list is the order in which the operating system lists a directory. Only regular
  files are modelled.
\<close>

type_synonym filesystem = "(string \<times> string) list"

datatype error = RuntimeError string | NameError string | FileNotFoundError string

text \<open>\<open>os.path.basename\<close>: everything after the last slash.\<close>

definition basename :: "string \<Rightarrow> string" where
  "basename p = rev (takeWhile (\<lambda>c. c \<noteq> CHR ''/'') (rev p))"

text \<open>The part of a path up to and including its last slash.\<close>

definition dir_prefix :: "string \<Rightarrow> string" where
  "dir_prefix p = rev (dropWhile (\<lambda>c. c \<noteq> CHR ''/'') (rev p))"

text \<open>
  \<open>fnmatch\<close> for patterns made of literal characters and \<open>*\<close> (the only wildcard the
  notebook uses).
\<close>

fun fnmatch :: "string \<Rightarrow> string \<Rightarrow> bool" where
  "fnmatch [] name = (name = [])"
| "fnmatch (p # ps) [] = (p = CHR ''*'' \<and> fnmatch ps [])"
| "fnmatch (p # ps) (c # cs) =
     (if p = CHR ''*'' then fnmatch ps (c # cs) \<or> fnmatch (p # ps) cs
      else p = c \<and> fnmatch ps cs)"

definition ishidden :: "string \<Rightarrow> bool" where
  "ishidden name = (case name of [] \<Rightarrow> False | c # _ \<Rightarrow> c = CHR ''.'')"

text \<open>
  \<open>glob.glob(pathname)\<close> for a pathname whose directory part has no wildcard: the
  files of that directory whose name matches the last component, in directory order;
  a name starting with a dot is only matched by a pattern starting with a dot.
\<close>

definition glob :: "filesystem \<Rightarrow> string \<Rightarrow> string list" where
  "glob fs pathname =
     [p \<leftarrow> map fst fs.
        dir_prefix p = dir_prefix pathname
        \<and> fnmatch (basename pathname) (basename p)
        \<and> (if ishidden (basename pathname) then True else \<not> ishidden (basename p))]"

text \<open>\<open>open(path).read()\<close>.\<close>

definition open_read :: "filesystem \<Rightarrow> string \<Rightarrow> error + string" where
  "open_read fs path =
     (case map_of fs path of None \<Rightarrow> Inl (FileNotFoundError path) | Some text \<Rightarrow> Inr text)"

text \<open>\<open>shutil.copyfile(src, dst)\<close>: the content of \<open>src\<close> replaces or creates \<open>dst\<close>.\<close>

definition copyfile :: "string \<Rightarrow> string \<Rightarrow> filesystem \<Rightarrow> error + filesystem" where
  "copyfile src dst fs =
     (case map_of fs src of
        None \<Rightarrow> Inl (FileNotFoundError src)
      | Some content \<Rightarrow> Inr (AList.update dst content fs))"

text \<open>
  \<open>os.remove(path)\<close>, evaluated in a namespace \<open>ns\<close> of bound global names. Python
  looks the name \<open>os\<close> up before anything else and raises \<open>NameError\<close> when it is
  unbound; a bound \<open>os\<close> is taken to be the standard module.
\<close>

definition os_remove :: "string set \<Rightarrow> string \<Rightarrow> filesystem \<Rightarrow> error + filesystem" where
  "os_remove ns path fs =
     (if ''os'' \<in> ns
      then (case map_of fs path of
              None \<Rightarrow> Inl (FileNotFoundError path)
            | Some _ \<Rightarrow> Inr (AList.delete path fs))
      else Inl (NameError ''os''))"

subsection \<open>The kernel state\<close>

text \<open>
  What a cell can change: the files, the console, and the global names bound so far.
  A console line is the text printed, except for the two lines of the second cell that
  format the version string and \<open>repr(response)\<close>, which keep their argument.
\<close>

datatype line = Text string | TypeYes string | TheResponseWas string

record kernel =
  files :: filesystem
  stdout :: "line list"
  names :: "string set"

subsection \<open>First cell: the lists of refreshed, added and removed tutorials\<close>

definition workspace_path :: "string \<Rightarrow> string" where
  "workspace_path base = ''/work/'' @ base"

definition archive_path :: "string \<Rightarrow> string" where
  "archive_path base = ''/opt/drake/share/drake/tutorials/'' @ base"

definition released_paths :: "filesystem \<Rightarrow> string list" where
  "released_paths fs = sort (glob fs (archive_path ''*.ipynb''))"

definition current_paths :: "filesystem \<Rightarrow> string list" where
  "current_paths fs =
     sort [x \<leftarrow> glob fs (workspace_path ''*.ipynb'').
             x \<notin> set [''/work/init.ipynb'', ''/work/zzz_for_maintainers.ipynb'']]"

definition released :: "filesystem \<Rightarrow> string list" where
  "released fs = [basename x. x \<leftarrow> released_paths fs]"

definition current :: "filesystem \<Rightarrow> string list" where
  "current fs = [basename x. x \<leftarrow> current_paths fs]"

text \<open>
  The three comprehensions, as functions of the lists \<open>cur\<close> (the notebook's
  \<open>current\<close>) and \<open>rel\<close> (its \<open>released\<close>).
\<close>

definition refreshed :: "string list \<Rightarrow> string list \<Rightarrow> string list" where
  "refreshed cur rel = [name \<leftarrow> cur. name \<in> set rel]"

definition added :: "string list \<Rightarrow> string list \<Rightarrow> string list" where
  "added cur rel = [name \<leftarrow> rel. name \<notin> set cur]"

definition removed :: "string list \<Rightarrow> string list \<Rightarrow> string list" where
  "removed cur rel = [name \<leftarrow> cur. name \<notin> set rel]"

definition print_list :: "string \<Rightarrow> string list \<Rightarrow> line list" where
  "print_list heading items =
     [Text heading]
     @ (if items = [] then [Text '' (None)''] else [])
     @ [Text (''- '' @ item). item \<leftarrow> items]
     @ [Text '''']"

text \<open>The global names the first cell binds (imports, functions and variables).\<close>

definition cell1_names :: "string set" where
  "cell1_names =
     {''glob'', ''basename'', ''workspace_path'', ''archive_path'', ''released_paths'',
      ''current_paths'', ''released'', ''current'', ''refreshed'', ''added'', ''removed'',
      ''print_list''}"

text \<open>
  Running the first cell: the result is the triple \<open>(refreshed, added, removed)\<close> that
  the cell leaves in the notebook's globals, with the kernel after the cell.
\<close>

definition cell1 :: "kernel \<Rightarrow> (string list \<times> string list \<times> string list) \<times> kernel" where
  "cell1 k =
     (let rel = released (files k);
          cur = current (files k);
          r = refreshed cur rel;
          a = added cur rel;
          d = removed cur rel
      in ((r, a, d),
          k\<lparr>stdout := stdout k
               @ print_list ''Refreshed tutorials:'' r
               @ print_list ''Added tutorials:'' a
               @ print_list ''Removed tutorials:'' d,
            names := names k \<union> cell1_names\<rparr>))"

subsection \<open>Second cell: confirmation, copies, removals\<close>

definition bind :: "string \<Rightarrow> kernel \<Rightarrow> kernel" where
  "bind name k = k\<lparr>names := insert name (names k)\<rparr>"

definition print :: "line \<Rightarrow> kernel \<Rightarrow> kernel" where
  "print l k = k\<lparr>stdout := stdout k @ [l]\<rparr>"

text \<open>
  The two \<open>for\<close> loops. A loop stops at the first exception, which leaves the kernel
  as it was when the exception was raised.
\<close>

fun copy_loop :: "string list \<Rightarrow> kernel \<Rightarrow> error option \<times> kernel" where
  "copy_loop [] k = (None, k)"
| "copy_loop (base # rest) k =
     (let k1 = print (Text (''Updating '' @ base)) (bind ''base'' k)
      in case copyfile (archive_path base) (workspace_path base) (files k1) of
           Inl e \<Rightarrow> (Some e, k1)
         | Inr fs \<Rightarrow> copy_loop rest (k1\<lparr>files := fs\<rparr>))"

fun remove_loop :: "string list \<Rightarrow> kernel \<Rightarrow> error option \<times> kernel" where
  "remove_loop [] k = (None, k)"
| "remove_loop (base # rest) k =
     (let k1 = print (Text (''Removing '' @ base)) (bind ''base'' k)
      in case os_remove (names k1) (workspace_path base) (files k1) of
           Inl e \<Rightarrow> (Some e, k1)
         | Inr fs \<Rightarrow> remove_loop rest (k1\<lparr>files := fs\<rparr>))"

text \<open>The cell after the confirmation: \<open>to_copy = refreshed + added\<close> and the two loops.\<close>

definition apply_plan ::
  "string list \<Rightarrow> string list \<Rightarrow> string list \<Rightarrow> kernel \<Rightarrow> error option \<times> kernel" where
  "apply_plan r a d k =
     (let to_copy = r @ a
      in case copy_loop to_copy (bind ''to_copy'' k) of
           (Some e, k1) \<Rightarrow> (Some e, k1)
         | (None, k1) \<Rightarrow> remove_loop d k1)"

definition version_path :: string where
  "version_path = ''/opt/drake/share/doc/drake/VERSION.TXT''"

text \<open>
  The kernel when the comparison of the response is reached: \<open>shutil\<close> imported, the
  version string read and shown, the response read and echoed.
\<close>

definition ask :: "string \<Rightarrow> string \<Rightarrow> kernel \<Rightarrow> kernel" where
  "ask yyyymmdd response k =
     print (TheResponseWas response)
       (bind ''response''
          (print (TypeYes yyyymmdd)
             (bind ''yyyymmdd'' (bind ''shutil'' k))))"

text \<open>
  The whole second cell, for the lists \<open>r\<close>, \<open>a\<close>, \<open>d\<close> left by the first cell and the
  line \<open>response\<close> that \<open>input\<close> returns.
\<close>

definition cell2 ::
  "string list \<Rightarrow> string list \<Rightarrow> string list \<Rightarrow> string \<Rightarrow> kernel \<Rightarrow> error option \<times> kernel" where
  "cell2 r a d response k =
     (case open_read (files k) version_path of
        Inl e \<Rightarrow> (Some e, bind ''shutil'' k)
      | Inr text \<Rightarrow>
          (let yyyymmdd = take 8 text;
               k1 = ask yyyymmdd response k
           in if response \<noteq> ''yes'' then (Some (RuntimeError ''Cancelled''), k1)
              else apply_plan r a d k1))"

text \<open>The notebook run from top to bottom: the first cell, then the second.\<close>

definition run_notebook :: "string \<Rightarrow> kernel \<Rightarrow> error option \<times> kernel" where
  "run_notebook response k0 =
     (case cell1 k0 of ((r, a, d), k) \<Rightarrow> cell2 r a d response k)"

subsection \<open>Example stores\<close>

text \<open>A kernel that has not run any cell, over a given file system.\<close>

definition fresh :: "filesystem \<Rightarrow> kernel" where
  "fresh fs = \<lparr>files = fs, stdout = [], names = {}\<rparr>"

text \<open>
  The archive holds \<open>A.ipynb\<close> and \<open>B.ipynb\<close>, the workspace \<open>B.ipynb\<close> and
  \<open>C.ipynb\<close>; neither excluded notebook is present.
\<close>

definition example_fs :: filesystem where
  "example_fs =
     [(''/opt/drake/share/doc/drake/VERSION.TXT'', ''20221116155816 0123abcd''),
      (''/work/C.ipynb'', ''c (workspace)''),
      (''/opt/drake/share/drake/tutorials/B.ipynb'', ''b (released)''),
      (''/work/B.ipynb'', ''b (workspace)''),
      (''/opt/drake/share/drake/tutorials/A.ipynb'', ''a (released)'')]"

text \<open>
  The archive holds \<open>init.ipynb\<close>, one of the two names excluded from the workspace
  listing, and the workspace holds both excluded notebooks.
\<close>

definition init_fs :: filesystem where
  "init_fs =
     [(''/work/init.ipynb'', ''init (workspace)''),
      (''/work/zzz_for_maintainers.ipynb'', ''this notebook''),
      (''/opt/drake/share/drake/tutorials/init.ipynb'', ''init (released)''),
      (''/work/index.ipynb'', ''index (workspace)''),
      (''/opt/drake/share/drake/tutorials/index.ipynb'', ''index (released)''),
      (''/opt/drake/share/doc/drake/VERSION.TXT'', ''20221116155816 0123abcd'')]"

text \<open>Archive and workspace hold the same two tutorials.\<close>

definition same_fs :: filesystem where
  "same_fs =
     [(''/work/index.ipynb'', ''index (workspace)''),
      (''/work/linear_program.ipynb'', ''lp (workspace)''),
      (''/opt/drake/share/drake/tutorials/linear_program.ipynb'', ''lp (released)''),
      (''/opt/drake/share/drake/tutorials/index.ipynb'', ''index (released)''),
      (''/opt/drake/share/doc/drake/VERSION.TXT'', ''20221116155816 0123abcd'')]"

section \<open>The lists of the first cell\<close>

lemma set_refreshed: "set (refreshed cur rel) = set cur \<inter> set rel"
  by (auto simp: refreshed_def)

lemma set_added: "set (added cur rel) = set rel - set cur"
  by (auto simp: added_def)

lemma set_removed: "set (removed cur rel) = set cur - set rel"
  by (auto simp: removed_def)

text \<open>
  C1. For all lists of released and current identifiers, the three lists
  \<open>refreshed\<close>, \<open>added\<close> and \<open>removed\<close> are pairwise disjoint, and together they hold
  exactly the identifiers of the two inputs.
\<close>

theorem plan_partition:
  "set (refreshed cur rel) \<inter> set (added cur rel) = {}
   \<and> set (refreshed cur rel) \<inter> set (removed cur rel) = {}
   \<and> set (added cur rel) \<inter> set (removed cur rel) = {}
   \<and> set (refreshed cur rel) \<union> set (added cur rel) \<union> set (removed cur rel)
       = set cur \<union> set rel"
  unfolding set_refreshed set_added set_removed by blast

lemma cell1_lists:
  "fst (cell1 k) =
     (refreshed (current (files k)) (released (files k)),
      added (current (files k)) (released (files k)),
      removed (current (files k)) (released (files k)))"
  by (simp add: cell1_def Let_def)

lemma cell1_files: "files (snd (cell1 k)) = files k"
  by (simp add: cell1_def Let_def)

lemma cell1_names_of: "names (snd (cell1 k)) = names k \<union> cell1_names"
  by (simp add: cell1_def Let_def)

text \<open>
  The comprehensions keep the order and the multiplicity of the list they filter: the
  results are sorted and free of duplicates when the inputs are.
\<close>

lemma lists_sorted:
  "sorted cur \<Longrightarrow> sorted rel \<Longrightarrow>
   sorted (refreshed cur rel) \<and> sorted (added cur rel) \<and> sorted (removed cur rel)"
  by (simp add: refreshed_def added_def removed_def sorted_wrt_filter)

lemma lists_distinct:
  "distinct cur \<Longrightarrow> distinct rel \<Longrightarrow>
   distinct (refreshed cur rel) \<and> distinct (added cur rel) \<and> distinct (removed cur rel)"
  by (simp add: refreshed_def added_def removed_def)

text \<open>
  C2. The three lists are functions of the two input lists alone: \<open>refreshed\<close> holds
  the identifiers of both, \<open>added\<close> those of the released list that are not current,
  \<open>removed\<close> those of the current list that are not released. The computation has no
  failing branch, all three lists are empty when both inputs are, and running the cell
  leaves the files as they were.
\<close>

theorem plan_lists:
  "set (refreshed cur rel) = set cur \<inter> set rel
   \<and> set (added cur rel) = set rel - set cur
   \<and> set (removed cur rel) = set cur - set rel
   \<and> refreshed [] [] = [] \<and> added [] [] = [] \<and> removed [] [] = []
   \<and> files (snd (cell1 k)) = files k"
  by (simp add: set_refreshed set_added set_removed cell1_files)
    (simp add: refreshed_def added_def removed_def)

text \<open>
  C7. With released identifiers \<open>A.ipynb\<close>, \<open>B.ipynb\<close> and current identifiers
  \<open>B.ipynb\<close>, \<open>C.ipynb\<close> the lists are \<open>refreshed = [B.ipynb]\<close>,
  \<open>added = [A.ipynb]\<close>, \<open>removed = [C.ipynb]\<close>; the first cell computes them from a
  file system that holds these four notebooks and neither excluded one.
\<close>

theorem plan_example:
  "refreshed [''B.ipynb'', ''C.ipynb''] [''A.ipynb'', ''B.ipynb''] = [''B.ipynb'']
   \<and> added [''B.ipynb'', ''C.ipynb''] [''A.ipynb'', ''B.ipynb''] = [''A.ipynb'']
   \<and> removed [''B.ipynb'', ''C.ipynb''] [''A.ipynb'', ''B.ipynb''] = [''C.ipynb'']
   \<and> released example_fs = [''A.ipynb'', ''B.ipynb'']
   \<and> current example_fs = [''B.ipynb'', ''C.ipynb'']
   \<and> fst (cell1 (fresh example_fs)) = ([''B.ipynb''], [''A.ipynb''], [''C.ipynb''])"
  by code_simp

text \<open>
  C9. Running the first cell a second time, on the kernel the first run left, gives the
  same three lists as the first run: the cell reads the files only, and its own
  bindings and output do not feed back into the lists.
\<close>

theorem cell1_twice: "fst (cell1 (snd (cell1 k))) = fst (cell1 k)"
  by (simp add: cell1_lists cell1_files)

section \<open>The listings and the excluded notebooks\<close>

text \<open>
  Every path that \<open>glob\<close> returns lies in the directory of the pattern, so it is the
  directory followed by its own basename.
\<close>

lemma dir_prefix_basename: "dir_prefix p @ basename p = p"
  unfolding dir_prefix_def basename_def
  by (metis rev_append rev_rev_ident takeWhile_dropWhile_id)

lemma glob_dir: "p \<in> set (glob fs pathname) \<Longrightarrow> dir_prefix p = dir_prefix pathname"
  by (simp add: glob_def)

lemma glob_files: "p \<in> set (glob fs pathname) \<Longrightarrow> p \<in> fst ` set fs"
  by (auto simp: glob_def)

lemma workspace_dir: "dir_prefix (workspace_path ''*.ipynb'') = ''/work/''"
  by (simp add: dir_prefix_def workspace_path_def)

lemma archive_dir: "dir_prefix (archive_path ''*.ipynb'') = ''/opt/drake/share/drake/tutorials/''"
  by (simp add: dir_prefix_def archive_path_def)

lemma current_paths_form:
  assumes "x \<in> set (current_paths fs)"
  shows "x = workspace_path (basename x)"
proof -
  from assms have "x \<in> set (glob fs (workspace_path ''*.ipynb''))"
    by (simp add: current_paths_def)
  then have "dir_prefix x = ''/work/''"
    using glob_dir workspace_dir by simp
  then show ?thesis
    using dir_prefix_basename [of x] by (simp add: workspace_path_def)
qed

lemma released_paths_form:
  assumes "x \<in> set (released_paths fs)"
  shows "x = archive_path (basename x) \<and> x \<in> fst ` set fs"
proof -
  from assms have g: "x \<in> set (glob fs (archive_path ''*.ipynb''))"
    by (simp add: released_paths_def)
  then have "dir_prefix x = ''/opt/drake/share/drake/tutorials/''"
    using glob_dir archive_dir by simp
  then show ?thesis
    using dir_prefix_basename [of x] glob_files [OF g] by (simp add: archive_path_def)
qed

lemma current_not_excluded:
  "''init.ipynb'' \<notin> set (current fs) \<and> ''zzz_for_maintainers.ipynb'' \<notin> set (current fs)"
proof -
  have "name \<noteq> ''init.ipynb'' \<and> name \<noteq> ''zzz_for_maintainers.ipynb''"
    if "name \<in> set (current fs)" for name
  proof -
    from that obtain x where x: "x \<in> set (current_paths fs)" and n: "name = basename x"
      by (auto simp: current_def)
    from x have "x \<noteq> ''/work/init.ipynb'' \<and> x \<noteq> ''/work/zzz_for_maintainers.ipynb''"
      by (simp add: current_paths_def)
    moreover have "x = workspace_path name"
      using current_paths_form [OF x] n by simp
    ultimately show ?thesis by (auto simp: workspace_path_def)
  qed
  then show ?thesis by blast
qed


lemma basename_no_slash: "CHR ''/'' \<notin> set (basename p)"
  using set_takeWhileD [of "CHR ''/''" "\<lambda>c. c \<noteq> CHR ''/''" "rev p"]
  by (auto simp: basename_def)

lemma basename_in_dir:
  assumes "CHR ''/'' \<notin> set name"
  shows "basename (d @ CHR ''/'' # name) = name"
proof -
  have "takeWhile (\<lambda>c. c \<noteq> CHR ''/'') (rev name @ CHR ''/'' # rev d) = rev name"
    using assms by (subst takeWhile_append2) auto
  then show ?thesis by (simp add: basename_def)
qed

lemma dir_prefix_in_dir:
  assumes "CHR ''/'' \<notin> set name"
  shows "dir_prefix (d @ CHR ''/'' # name) = d @ [CHR ''/'']"
proof -
  have "dropWhile (\<lambda>c. c \<noteq> CHR ''/'') (rev name @ CHR ''/'' # rev d) = CHR ''/'' # rev d"
    using assms by (subst dropWhile_append2) auto
  then show ?thesis by (simp add: dir_prefix_def)
qed

lemma archive_path_parts:
  assumes "CHR ''/'' \<notin> set name"
  shows "basename (archive_path name) = name"
    and "dir_prefix (archive_path name) = ''/opt/drake/share/drake/tutorials/''"
  using basename_in_dir [OF assms, of "''/opt/drake/share/drake/tutorials''"]
    dir_prefix_in_dir [OF assms, of "''/opt/drake/share/drake/tutorials''"]
  by (simp_all add: archive_path_def)

lemma released_iff:
  "name \<in> set (released fs) \<longleftrightarrow>
     (archive_path name \<in> fst ` set fs \<and> CHR ''/'' \<notin> set name
      \<and> fnmatch ''*.ipynb'' name \<and> \<not> ishidden name)"
proof
  assume "name \<in> set (released fs)"
  then obtain x where x: "x \<in> set (released_paths fs)" and n: "name = basename x"
    by (auto simp: released_def)
  from released_paths_form [OF x] n have f: "x = archive_path name" "x \<in> fst ` set fs"
    by simp_all
  from x have "fnmatch (basename (archive_path ''*.ipynb'')) (basename x)
      \<and> (if ishidden (basename (archive_path ''*.ipynb'')) then True else \<not> ishidden (basename x))"
    by (simp add: released_paths_def glob_def)
  moreover have "basename (archive_path ''*.ipynb'') = ''*.ipynb''"
    by (rule archive_path_parts) simp
  ultimately have "fnmatch ''*.ipynb'' name \<and> \<not> ishidden name"
    using n by (simp add: ishidden_def)
  with f n show "archive_path name \<in> fst ` set fs \<and> CHR ''/'' \<notin> set name
      \<and> fnmatch ''*.ipynb'' name \<and> \<not> ishidden name"
    using basename_no_slash [of x] by simp
next
  assume a: "archive_path name \<in> fst ` set fs \<and> CHR ''/'' \<notin> set name
      \<and> fnmatch ''*.ipynb'' name \<and> \<not> ishidden name"
  then have parts: "basename (archive_path name) = name"
      "dir_prefix (archive_path name) = ''/opt/drake/share/drake/tutorials/''"
    using archive_path_parts by simp_all
  have pat: "basename (archive_path ''*.ipynb'') = ''*.ipynb''"
    by (rule archive_path_parts) simp
  have "archive_path name \<in> set (glob fs (archive_path ''*.ipynb''))"
    using a parts pat archive_dir by (simp add: glob_def ishidden_def)
  then have "archive_path name \<in> set (released_paths fs)"
    by (simp add: released_paths_def)
  then have "basename (archive_path name) \<in> set (released fs)"
    by (simp add: released_def)
  with parts show "name \<in> set (released fs)" by simp
qed

text \<open>
  C6 (as amended). The two excluded basenames never appear in \<open>refreshed\<close> or in
  \<open>removed\<close>, whether or not the workspace holds them. The exclusion filters the
  workspace listing only: an excluded basename appears in \<open>added\<close> exactly when the
  archive holds a notebook of that name.
\<close>

theorem excluded_names:
  "''init.ipynb'' \<notin> set (refreshed (current fs) (released fs))
   \<and> ''init.ipynb'' \<notin> set (removed (current fs) (released fs))
   \<and> (''init.ipynb'' \<in> set (added (current fs) (released fs)))
        = (archive_path ''init.ipynb'' \<in> fst ` set fs)
   \<and> ''zzz_for_maintainers.ipynb'' \<notin> set (refreshed (current fs) (released fs))
   \<and> ''zzz_for_maintainers.ipynb'' \<notin> set (removed (current fs) (released fs))
   \<and> (''zzz_for_maintainers.ipynb'' \<in> set (added (current fs) (released fs)))
        = (archive_path ''zzz_for_maintainers.ipynb'' \<in> fst ` set fs)"
proof -
  have i: "''init.ipynb'' \<in> set (released fs) \<longleftrightarrow> archive_path ''init.ipynb'' \<in> fst ` set fs"
    by (simp add: released_iff ishidden_def)
  have z: "''zzz_for_maintainers.ipynb'' \<in> set (released fs)
      \<longleftrightarrow> archive_path ''zzz_for_maintainers.ipynb'' \<in> fst ` set fs"
    by (simp add: released_iff ishidden_def)
  show ?thesis
    using current_not_excluded [of fs] i z
    by (simp add: set_refreshed set_added set_removed)
qed

text \<open>
  The claim as stated fails when the archive holds \<open>init.ipynb\<close>: the name is listed
  as added, and the second cell then overwrites the workspace's own \<open>init.ipynb\<close>.
\<close>

theorem excluded_added_counterexample:
  "''init.ipynb'' \<in> set (added (current init_fs) (released init_fs))
   \<and> fst (cell1 (fresh init_fs)) = ([''index.ipynb''], [''init.ipynb''], [])
   \<and> map_of (files (snd (run_notebook ''yes'' (fresh init_fs)))) ''/work/init.ipynb''
       = Some ''init (released)''"
  by code_simp

section \<open>The second cell\<close>

subsection \<open>What the loops can and cannot do\<close>

lemma print_simps [simp]:
  "files (print l k) = files k" "names (print l k) = names k" "stdout (print l k) = stdout k @ [l]"
  by (simp_all add: print_def)

lemma bind_simps [simp]:
  "files (bind n k) = files k" "names (bind n k) = insert n (names k)" "stdout (bind n k) = stdout k"
  by (simp_all add: bind_def)

lemma ask_files: "files (ask v response k) = files k"
  by (simp add: ask_def bind_def print_def)

lemma ask_stdout: "stdout (ask v response k) = stdout k @ [TypeYes v, TheResponseWas response]"
  by (simp add: ask_def bind_def print_def)

lemma ask_names: "names (ask v response k) = names k \<union> {''shutil'', ''yyyymmdd'', ''response''}"
  by (auto simp: ask_def bind_def print_def)

text \<open>
  The name \<open>os\<close> is looked up when the first removal is reached. When it is unbound
  the loop stops there, after the line announcing the removal has been printed.
\<close>

lemma remove_loop_unbound:
  assumes "''os'' \<notin> names k"
  shows "remove_loop (base # rest) k
    = (Some (NameError ''os''), print (Text (''Removing '' @ base)) (bind ''base'' k))"
  using assms by (simp add: os_remove_def bind_def print_def)

lemma remove_loop_unbound_files:
  assumes "''os'' \<notin> names k"
  shows "files (snd (remove_loop d k)) = files k"
proof (cases d)
  case Nil
  then show ?thesis by simp
next
  case (Cons base rest)
  then show ?thesis using remove_loop_unbound [OF assms, of base rest] by simp
qed

lemma copy_loop_names: "names (snd (copy_loop xs k)) \<subseteq> insert ''base'' (names k)"
proof (induction xs arbitrary: k)
  case Nil
  show ?case by auto
next
  case (Cons base rest)
  show ?case
  proof (cases "copyfile (archive_path base) (workspace_path base) (files k)")
    case (Inl e)
    then show ?thesis by (simp add: bind_def print_def)
  next
    case (Inr fs)
    then show ?thesis
      using Cons.IH [of "print (Text (''Updating '' @ base)) (bind ''base'' k)\<lparr>files := fs\<rparr>"]
      by (auto simp: bind_def print_def)
  qed
qed

text \<open>The loops raise what the library calls raise, never the cancellation.\<close>

lemma copyfile_error: "copyfile src dst fs = Inl e \<Longrightarrow> e = FileNotFoundError src"
  by (auto simp: copyfile_def split: option.splits)

lemma os_remove_error:
  "os_remove ns path fs = Inl e \<Longrightarrow> e = NameError ''os'' \<or> e = FileNotFoundError path"
  by (auto simp: os_remove_def split: option.splits if_splits)

lemma copy_loop_error: "fst (copy_loop xs k) \<noteq> Some (RuntimeError m)"
proof (induction xs arbitrary: k)
  case Nil
  show ?case by simp
next
  case (Cons base rest)
  show ?case
    using Cons.IH by (auto simp: Let_def split: sum.splits dest: copyfile_error)
qed

lemma remove_loop_error: "fst (remove_loop xs k) \<noteq> Some (RuntimeError m)"
proof (induction xs arbitrary: k)
  case Nil
  show ?case by simp
next
  case (Cons base rest)
  show ?case
    using Cons.IH by (auto simp: Let_def split: sum.splits dest: os_remove_error)
qed

lemma apply_plan_error: "fst (apply_plan r a d k) \<noteq> Some (RuntimeError m)"
proof (cases "copy_loop (r @ a) (bind ''to_copy'' k)")
  case (Pair e k1)
  show ?thesis
  proof (cases e)
    case None
    with Pair show ?thesis using remove_loop_error [of d k1 m] by (simp add: apply_plan_def)
  next
    case (Some err)
    with Pair show ?thesis using copy_loop_error [of "r @ a" "bind ''to_copy'' k" m]
      by (simp add: apply_plan_def)
  qed
qed

text \<open>
  The copy loop creates or overwrites workspace paths only and removes nothing; its
  sources are archive paths, which it never writes.
\<close>

lemma copyfile_keys:
  assumes "copyfile src dst fs = Inr fs'"
  shows "fst ` set fs' = insert dst (fst ` set fs)"
proof -
  from assms obtain content where "fs' = AList.update dst content fs"
    by (auto simp: copyfile_def split: option.splits)
  then show ?thesis by (simp add: AList.dom_update)
qed

lemma copy_loop_keys:
  "fst ` set (files (snd (copy_loop xs k))) \<subseteq> fst ` set (files k) \<union> workspace_path ` set xs
   \<and> fst ` set (files k) \<subseteq> fst ` set (files (snd (copy_loop xs k)))"
proof (induction xs arbitrary: k)
  case Nil
  show ?case by simp
next
  case (Cons base rest)
  show ?case
  proof (cases "copyfile (archive_path base) (workspace_path base) (files k)")
    case (Inl e)
    then show ?thesis by (auto simp: bind_def print_def)
  next
    case (Inr fs)
    then have fs: "fst ` set fs = insert (workspace_path base) (fst ` set (files k))"
      by (rule copyfile_keys)
    show ?thesis
      using Inr fs Cons.IH [of "print (Text (''Updating '' @ base)) (bind ''base'' k)\<lparr>files := fs\<rparr>"]
      by (auto simp: bind_def print_def)
  qed
qed

lemma archive_not_workspace: "archive_path b \<noteq> workspace_path b'"
  by (simp add: archive_path_def workspace_path_def)

lemma workspace_path_inj: "workspace_path b = workspace_path b' \<longleftrightarrow> b = b'"
  by (simp add: workspace_path_def)

lemma copyfile_map:
  assumes "copyfile src dst fs = Inr fs'"
  shows "map_of fs' = (map_of fs)(dst := map_of fs src)"
  using assms by (auto simp: copyfile_def AList.update_conv' split: option.splits)

lemma copy_loop_map:
  assumes "copy_loop xs k = (None, k')"
  shows "map_of (files k') (workspace_path b)
           = (if b \<in> set xs then map_of (files k) (archive_path b)
              else map_of (files k) (workspace_path b))
         \<and> (p \<notin> workspace_path ` set xs \<longrightarrow> map_of (files k') p = map_of (files k) p)"
  using assms
proof (induction xs arbitrary: k)
  case Nil
  then show ?case by simp
next
  case (Cons base rest)
  show ?case
  proof (cases "copyfile (archive_path base) (workspace_path base) (files k)")
    case (Inl e)
    with Cons.prems show ?thesis by (simp add: Let_def)
  next
    case (Inr fs)
    let ?k = "print (Text (''Updating '' @ base)) (bind ''base'' k)\<lparr>files := fs\<rparr>"
    have m: "map_of fs = (map_of (files k))(workspace_path base := map_of (files k) (archive_path base))"
      using Inr by (rule copyfile_map)
    from Inr Cons.prems have "copy_loop rest ?k = (None, k')"
      by (simp add: Let_def)
    from Cons.IH [OF this] have
      ih1: "map_of (files k') (workspace_path b)
             = (if b \<in> set rest then map_of fs (archive_path b) else map_of fs (workspace_path b))"
      and ih2: "p \<notin> workspace_path ` set rest \<longrightarrow> map_of (files k') p = map_of fs p"
      by simp_all
    show ?thesis
      using ih1 ih2 by (auto simp: m archive_not_workspace workspace_path_inj)
  qed
qed

text \<open>A copy loop that runs to its end prints one line for each name, in order.\<close>

lemma copy_loop_stdout:
  assumes "copy_loop xs k = (None, k')"
  shows "stdout k' = stdout k @ [Text (''Updating '' @ base). base \<leftarrow> xs]"
  using assms
proof (induction xs arbitrary: k)
  case Nil
  then show ?case by simp
next
  case (Cons base rest)
  show ?case
  proof (cases "copyfile (archive_path base) (workspace_path base) (files k)")
    case (Inl e)
    with Cons.prems show ?thesis by (simp add: Let_def)
  next
    case (Inr fs)
    let ?k = "print (Text (''Updating '' @ base)) (bind ''base'' k)\<lparr>files := fs\<rparr>"
    from Inr Cons.prems have "copy_loop rest ?k = (None, k')"
      by (simp add: Let_def)
    from Cons.IH [OF this] show ?thesis by simp
  qed
qed

lemma os_remove_map:
  assumes "os_remove ns path fs = Inr fs'"
  shows "map_of fs' = (map_of fs)(path := None)"
  using assms by (auto simp: os_remove_def AList.delete_conv' split: option.splits if_splits)

lemma remove_loop_map:
  assumes "remove_loop xs k = (None, k')"
  shows "map_of (files k') p
           = (if p \<in> workspace_path ` set xs then None else map_of (files k) p)"
  using assms
proof (induction xs arbitrary: k)
  case Nil
  then show ?case by simp
next
  case (Cons base rest)
  let ?k1 = "print (Text (''Removing '' @ base)) (bind ''base'' k)"
  show ?case
  proof (cases "os_remove (names ?k1) (workspace_path base) (files ?k1)")
    case (Inl e)
    with Cons.prems show ?thesis by (simp add: Let_def)
  next
    case (Inr fs)
    have m: "map_of fs = (map_of (files k))(workspace_path base := None)"
      using os_remove_map [OF Inr] by (simp add: bind_def print_def)
    from Inr Cons.prems have "remove_loop rest (?k1\<lparr>files := fs\<rparr>) = (None, k')"
      by (simp add: Let_def)
    from Cons.IH [OF this] show ?thesis
      by (auto simp: m)
  qed
qed

text \<open>
  When both loops run to their end, the workspace holds the archive's content for every
  copied name that was not removed afterwards, and no entry for a removed name. With
  \<open>os\<close> unbound this end is reached only when there is nothing to remove.
\<close>

lemma apply_plan_success:
  assumes "apply_plan r a d k = (None, k')"
  shows "map_of (files k') (workspace_path b)
           = (if b \<in> set d then None
              else if b \<in> set r \<union> set a then map_of (files k) (archive_path b)
              else map_of (files k) (workspace_path b))"
proof -
  obtain e k1 where c: "copy_loop (r @ a) (bind ''to_copy'' k) = (e, k1)"
    by (cases "copy_loop (r @ a) (bind ''to_copy'' k)")
  with assms have e: "e = None" and rl: "remove_loop d k1 = (None, k')"
    by (auto simp: apply_plan_def split: option.splits)
  from c e have "map_of (files k1) (workspace_path b)
           = (if b \<in> set (r @ a) then map_of (files k) (archive_path b)
              else map_of (files k) (workspace_path b))"
    using copy_loop_map [of "r @ a" "bind ''to_copy'' k" k1 b] by (simp add: bind_def)
  then show ?thesis
    using remove_loop_map [OF rl, of "workspace_path b"] by (auto simp: workspace_path_inj)
qed

lemma apply_plan_unbound_success:
  assumes "''os'' \<notin> names k" and "apply_plan r a d k = (None, k')"
  shows "d = []"
proof (rule ccontr)
  assume "d \<noteq> []"
  then obtain base rest where d: "d = base # rest" by (cases d) auto
  obtain e k1 where c: "copy_loop (r @ a) (bind ''to_copy'' k) = (e, k1)"
    by (cases "copy_loop (r @ a) (bind ''to_copy'' k)")
  with assms(2) have e: "e = None" and rl: "remove_loop d k1 = (None, k')"
    by (auto simp: apply_plan_def split: option.splits)
  have "''os'' \<notin> names k1"
    using copy_loop_names [of "r @ a" "bind ''to_copy'' k"] c assms(1) by (auto simp: bind_def)
  then show False
    using rl d remove_loop_unbound [of k1 base rest] by simp
qed

lemma current_in_workspace:
  assumes "base \<in> set (current fs)"
  shows "workspace_path base \<in> fst ` set fs"
proof -
  from assms obtain x where x: "x \<in> set (current_paths fs)" and b: "base = basename x"
    by (auto simp: current_def)
  from x have "x \<in> set (glob fs (workspace_path ''*.ipynb''))"
    by (simp add: current_paths_def)
  then have "x \<in> fst ` set fs" by (rule glob_files)
  with current_paths_form [OF x] b show ?thesis by simp
qed

text \<open>
  In the notebook run from top to bottom every name to copy comes from the archive
  listing, so its source exists and the copy loop runs to its end.
\<close>

lemma copy_loop_succeeds:
  assumes "\<forall>base \<in> set xs. archive_path base \<in> fst ` set (files k)"
  shows "fst (copy_loop xs k) = None"
  using assms
proof (induction xs arbitrary: k)
  case Nil
  show ?case by simp
next
  case (Cons base rest)
  from Cons.prems have "map_of (files k) (archive_path base) \<noteq> None"
    by (simp add: map_of_eq_None_iff)
  then obtain fs where fs: "copyfile (archive_path base) (workspace_path base) (files k) = Inr fs"
    by (auto simp: copyfile_def)
  let ?k = "print (Text (''Updating '' @ base)) (bind ''base'' k)\<lparr>files := fs\<rparr>"
  have "\<forall>b \<in> set rest. archive_path b \<in> fst ` set (files ?k)"
    using Cons.prems copyfile_keys [OF fs] by simp
  from Cons.IH [OF this] fs show ?case by (simp add: Let_def)
qed

lemma released_in_archive:
  assumes "base \<in> set (released fs)"
  shows "archive_path base \<in> fst ` set fs"
  using assms released_iff [of base fs] by blast

lemma notebook_removal_fails:
  assumes "''os'' \<notin> names k0"
    and "open_read (files k0) version_path = Inr text"
    and "removed (current (files k0)) (released (files k0)) \<noteq> []"
  shows "fst (run_notebook ''yes'' k0) = Some (NameError ''os'')"
    and "fst ` set (files k0) \<subseteq> fst ` set (files (snd (run_notebook ''yes'' k0)))"
proof -
  let ?r = "refreshed (current (files k0)) (released (files k0))"
  let ?a = "added (current (files k0)) (released (files k0))"
  let ?d = "removed (current (files k0)) (released (files k0))"
  let ?k = "snd (cell1 k0)"
  let ?k' = "bind ''to_copy'' (ask (take 8 text) ''yes'' ?k)"
  have run: "run_notebook ''yes'' k0 = apply_plan ?r ?a ?d (ask (take 8 text) ''yes'' ?k)"
    using assms(2) cell1_lists [of k0] cell1_files [of k0]
    by (cases "cell1 k0") (auto simp: run_notebook_def cell2_def)
  have "\<forall>base \<in> set (?r @ ?a). archive_path base \<in> fst ` set (files ?k')"
    using released_in_archive [of _ "files k0"]
    by (auto simp: set_refreshed set_added ask_files cell1_files)
  then have c: "fst (copy_loop (?r @ ?a) ?k') = None"
    by (rule copy_loop_succeeds)
  then obtain k1 where k1: "copy_loop (?r @ ?a) ?k' = (None, k1)"
    by (cases "copy_loop (?r @ ?a) ?k'") simp
  have "''os'' \<notin> names ?k'"
    using assms(1) by (simp add: ask_names cell1_names_of cell1_names_def)
  then have os: "''os'' \<notin> names k1"
    using copy_loop_names [of "?r @ ?a" ?k'] k1 by auto
  obtain base rest where d: "?d = base # rest"
    using assms(3) by (cases ?d) auto
  have ap: "run_notebook ''yes'' k0 = remove_loop ?d k1"
    using run k1 by (simp add: apply_plan_def)
  show "fst (run_notebook ''yes'' k0) = Some (NameError ''os'')"
    unfolding ap d using remove_loop_unbound [OF os, of base rest] by simp
  have "files (snd (run_notebook ''yes'' k0)) = files k1"
    unfolding ap using remove_loop_unbound_files [OF os] by simp
  moreover have "fst ` set (files k0) \<subseteq> fst ` set (files k1)"
    using copy_loop_keys [of "?r @ ?a" ?k'] k1 by (simp add: ask_files cell1_files)
  ultimately show "fst ` set (files k0) \<subseteq> fst ` set (files (snd (run_notebook ''yes'' k0)))"
    by simp
qed

subsection \<open>The confirmation\<close>

text \<open>
  C3 (as amended). The second cell, once it has read the version file, reads one line
  and goes on only when the line is exactly \<open>yes\<close>; the version string, the first
  8 characters of the version file, is shown in the prompt and plays no part in the
  comparison. Every other line raises the cancellation, and the files are then as they
  were before the cell ran.
\<close>

theorem confirm_token:
  assumes "open_read (files k) version_path = Inr text"
  shows "(fst (cell2 r a d response k) = Some (RuntimeError ''Cancelled'')) = (response \<noteq> ''yes'')
    \<and> (response \<noteq> ''yes'' \<longrightarrow> files (snd (cell2 r a d response k)) = files k)"
proof (cases "response = ''yes''")
  case True
  with assms show ?thesis
    using apply_plan_error [of r a d "ask (take 8 text) ''yes'' k" "''Cancelled''"]
    by (simp add: cell2_def Let_def)
next
  case False
  with assms show ?thesis by (simp add: cell2_def Let_def ask_files)
qed

theorem confirm_token_witness:
  "open_read (files (fresh example_fs)) version_path = Inr ''20221116155816 0123abcd''
   \<and> fst (cell2 [''B.ipynb''] [''A.ipynb''] [''C.ipynb''] ''20221116'' (fresh example_fs))
       = Some (RuntimeError ''Cancelled'')
   \<and> files (snd (cell2 [''B.ipynb''] [''A.ipynb''] [''C.ipynb''] ''20221116'' (fresh example_fs)))
       = example_fs"
proof -
  have h: "open_read (files (fresh example_fs)) version_path = Inr ''20221116155816 0123abcd''"
    by code_simp
  from confirm_token [OF h, of "[''B.ipynb'']" "[''A.ipynb'']" "[''C.ipynb'']" "''20221116''"]
  show ?thesis using h by (simp add: fresh_def)
qed

text \<open>
  The claim as stated, with the version string as the expected line, fails: typing the
  version string cancels, and typing \<open>yes\<close>, which is not the version string, lets
  the copies run.
\<close>

theorem confirm_version_counterexample:
  "open_read (files (fresh example_fs)) version_path = Inr ''20221116155816 0123abcd''
   \<and> take 8 ''20221116155816 0123abcd'' = ''20221116''
   \<and> fst (cell2 [''B.ipynb''] [''A.ipynb''] [] ''20221116'' (fresh example_fs))
       = Some (RuntimeError ''Cancelled'')
   \<and> fst (cell2 [''B.ipynb''] [''A.ipynb''] [] ''yes'' (fresh example_fs)) = None
   \<and> map_of (files (snd (cell2 [''B.ipynb''] [''A.ipynb''] [] ''yes'' (fresh example_fs))))
         ''/work/A.ipynb'' = Some ''a (released)''"
  by code_simp

text \<open>
  C4. The response is read once the version file has been read. The line read is
  compared with the literal \<open>yes\<close>, case-sensitively. When it is \<open>yes\<close> the
  cell goes on to the copies and removals; for every other line, the version string
  included, the cancellation is raised at once: the files are unchanged and the console
  shows the prompt and the echoed response only, so no copy and no removal has been
  started.
\<close>

theorem confirm_yes:
  assumes "open_read (files k) version_path = Inr text"
  shows "(response = ''yes'' \<longrightarrow>
            cell2 r a d response k = apply_plan r a d (ask (take 8 text) response k))
    \<and> (response \<noteq> ''yes'' \<longrightarrow>
            cell2 r a d response k
              = (Some (RuntimeError ''Cancelled''), ask (take 8 text) response k))
    \<and> files (ask (take 8 text) response k) = files k
    \<and> stdout (ask (take 8 text) response k)
        = stdout k @ [TypeYes (take 8 text), TheResponseWas response]
    \<and> (take 8 text \<noteq> ''yes'' \<longrightarrow>
            fst (cell2 r a d (take 8 text) k) = Some (RuntimeError ''Cancelled''))"
proof -
  have c: "cell2 r a d line k
      = (if line \<noteq> ''yes'' then (Some (RuntimeError ''Cancelled''), ask (take 8 text) line k)
         else apply_plan r a d (ask (take 8 text) line k))" for line
    using assms by (simp only: cell2_def Let_def sum.case)
  show ?thesis
    unfolding c by (simp add: ask_files ask_stdout)
qed

theorem confirm_yes_witness:
  "open_read (files (fresh example_fs)) version_path = Inr ''20221116155816 0123abcd''
   \<and> cell2 [''B.ipynb''] [''A.ipynb''] [''C.ipynb''] ''Yes'' (fresh example_fs)
       = (Some (RuntimeError ''Cancelled''), ask ''20221116'' ''Yes'' (fresh example_fs))
   \<and> files (ask ''20221116'' ''Yes'' (fresh example_fs)) = example_fs
   \<and> stdout (ask ''20221116'' ''Yes'' (fresh example_fs))
       = [TypeYes ''20221116'', TheResponseWas ''Yes'']
   \<and> fst (cell2 [''B.ipynb''] [''A.ipynb''] [''C.ipynb''] ''20221116'' (fresh example_fs))
       = Some (RuntimeError ''Cancelled'')"
proof -
  have h: "open_read (files (fresh example_fs)) version_path = Inr ''20221116155816 0123abcd''"
    by code_simp
  from confirm_yes [OF h, of "''Yes''" "[''B.ipynb'']" "[''A.ipynb'']" "[''C.ipynb'']"]
  show ?thesis using h by (simp add: fresh_def)
qed

subsection \<open>Copies and removals\<close>

text \<open>
  C10. The second cell imports \<open>shutil\<close> only and the first cell does not bind
  \<open>os\<close>. So, in a kernel where \<open>os\<close> was unbound before the first cell, for every
  plan with a non-empty \<open>removed\<close> list whose copies all succeed, the cell raises
  \<open>NameError\<close> for \<open>os\<close> at the first removal: the files are those the copy loop
  left, with every copy made and nothing removed.
\<close>

theorem os_unbound_no_removal:
  assumes "''os'' \<notin> names k0"
    and "k = snd (cell1 k0)"
    and "open_read (files k) version_path = Inr text"
    and "d \<noteq> []"
    and "copy_loop (r @ a) (bind ''to_copy'' (ask (take 8 text) ''yes'' k)) = (None, k1)"
  shows "cell2 r a d ''yes'' k
           = (Some (NameError ''os''), print (Text (''Removing '' @ hd d)) (bind ''base'' k1))
         \<and> files (snd (cell2 r a d ''yes'' k)) = files k1
         \<and> fst ` set (files k) \<subseteq> fst ` set (files (snd (cell2 r a d ''yes'' k)))
         \<and> (\<forall>base \<in> set (r @ a).
               map_of (files (snd (cell2 r a d ''yes'' k))) (workspace_path base)
                 = map_of (files k) (archive_path base))"
proof -
  let ?k = "bind ''to_copy'' (ask (take 8 text) ''yes'' k)"
  have keys: "fst ` set (files k) \<subseteq> fst ` set (files k1)"
    using copy_loop_keys [of "r @ a" ?k] assms(5) by (simp add: ask_files)
  have copies: "map_of (files k1) (workspace_path base) = map_of (files k) (archive_path base)"
    if "base \<in> set (r @ a)" for base
    using copy_loop_map [OF assms(5), of base] that by (simp add: ask_files)
  have "''os'' \<notin> names k"
    using assms(1,2) by (simp add: cell1_names_of cell1_names_def)
  then have "''os'' \<notin> names (bind ''to_copy'' (ask (take 8 text) ''yes'' k))"
    by (simp add: ask_names bind_def)
  then have "''os'' \<notin> names k1"
    using copy_loop_names [of "r @ a" "bind ''to_copy'' (ask (take 8 text) ''yes'' k)"] assms(5)
    by auto
  moreover obtain base rest where d: "d = base # rest"
    using assms(4) by (cases d) auto
  ultimately have "remove_loop d k1
      = (Some (NameError ''os''), print (Text (''Removing '' @ hd d)) (bind ''base'' k1))"
    using remove_loop_unbound [of k1 base rest] by simp
  then have c: "cell2 r a d ''yes'' k
      = (Some (NameError ''os''), print (Text (''Removing '' @ hd d)) (bind ''base'' k1))"
    using assms(3,5) by (simp add: cell2_def Let_def apply_plan_def)
  then have f: "files (snd (cell2 r a d ''yes'' k)) = files k1"
    by simp
  show ?thesis
    using c keys copies unfolding f by blast
qed

theorem os_unbound_no_removal_witness:
  "''os'' \<notin> names (fresh example_fs)
   \<and> open_read (files (snd (cell1 (fresh example_fs)))) version_path
       = Inr ''20221116155816 0123abcd''
   \<and> fst (copy_loop ([''B.ipynb''] @ [''A.ipynb''])
        (bind ''to_copy'' (ask ''20221116'' ''yes'' (snd (cell1 (fresh example_fs)))))) = None
   \<and> fst (cell2 [''B.ipynb''] [''A.ipynb''] [''C.ipynb''] ''yes'' (snd (cell1 (fresh example_fs))))
       = Some (NameError ''os'')
   \<and> files (snd (cell2 [''B.ipynb''] [''A.ipynb''] [''C.ipynb''] ''yes''
        (snd (cell1 (fresh example_fs)))))
       = files (snd (copy_loop ([''B.ipynb''] @ [''A.ipynb''])
           (bind ''to_copy'' (ask ''20221116'' ''yes'' (snd (cell1 (fresh example_fs)))))))"
proof -
  let ?k = "snd (cell1 (fresh example_fs))"
  let ?c = "copy_loop ([''B.ipynb''] @ [''A.ipynb''])
    (bind ''to_copy'' (ask (take 8 ''20221116155816 0123abcd'') ''yes'' ?k))"
  have h1: "''os'' \<notin> names (fresh example_fs)"
    by (simp add: fresh_def)
  have h3: "open_read (files ?k) version_path = Inr ''20221116155816 0123abcd''"
    by code_simp
  have h4: "[''C.ipynb''] \<noteq> []"
    by simp
  have c: "fst ?c = None"
    by code_simp
  then have h5: "?c = (None, snd ?c)"
    by (simp add: prod_eq_iff)
  note w = os_unbound_no_removal [OF h1 refl h3 h4 h5]
  show ?thesis
    using h1 h3 c w [THEN conjunct1] w [THEN conjunct2, THEN conjunct1] by simp
qed

text \<open>
  C5, on the code. The notebook run on a workspace holding \<open>B.ipynb\<close> and
  \<open>C.ipynb\<close> against an archive holding \<open>A.ipynb\<close> and \<open>B.ipynb\<close>, confirmed with
  \<open>yes\<close>: both copies are made, then the removal of \<open>C.ipynb\<close> raises
  \<open>NameError\<close> and \<open>C.ipynb\<close> stays in the workspace.
\<close>

theorem apply_removed_stays:
  "fst (cell1 (fresh example_fs)) = ([''B.ipynb''], [''A.ipynb''], [''C.ipynb''])
   \<and> fst (run_notebook ''yes'' (fresh example_fs)) = Some (NameError ''os'')
   \<and> map_of (files (snd (run_notebook ''yes'' (fresh example_fs)))) (workspace_path ''A.ipynb'')
       = Some ''a (released)''
   \<and> map_of (files (snd (run_notebook ''yes'' (fresh example_fs)))) (workspace_path ''B.ipynb'')
       = Some ''b (released)''
   \<and> map_of (files (snd (run_notebook ''yes'' (fresh example_fs)))) (workspace_path ''C.ipynb'')
       = Some ''c (workspace)''"
  by code_simp

text \<open>
  C8. When the released and the current identifiers are the same set, \<open>refreshed\<close> is
  the whole current list and \<open>added\<close> and \<open>removed\<close> are empty. Applying this plan
  to a store that holds every one of these notebooks in the archive and in the workspace
  (as the listings of the first cell guarantee, by \<open>released_in_archive\<close> and
  \<open>current_in_workspace\<close>) is the copy loop over the current list and nothing else. It
  ends without an exception; every workspace notebook of the list then has the content
  of its archive notebook, every other path has the content it had, the set of paths is
  the same before and after, and the console shows one \<open>Updating\<close> line for each name
  and no \<open>Removing\<close> line.
\<close>

theorem identical_sets:
  assumes "set rel = set cur"
    and "\<forall>base \<in> set cur. workspace_path base \<in> fst ` set (files k)"
    and "\<forall>base \<in> set cur. archive_path base \<in> fst ` set (files k)"
  shows "refreshed cur rel = cur \<and> added cur rel = [] \<and> removed cur rel = []
    \<and> apply_plan (refreshed cur rel) (added cur rel) (removed cur rel) k
        = copy_loop cur (bind ''to_copy'' k)
    \<and> fst (apply_plan (refreshed cur rel) (added cur rel) (removed cur rel) k) = None
    \<and> (\<forall>base \<in> set cur.
          map_of (files (snd (apply_plan (refreshed cur rel) (added cur rel) (removed cur rel) k)))
              (workspace_path base)
            = map_of (files k) (archive_path base)
          \<and> map_of (files k) (archive_path base) \<noteq> None)
    \<and> (\<forall>p. p \<notin> workspace_path ` set cur \<longrightarrow>
          map_of (files (snd (apply_plan (refreshed cur rel) (added cur rel) (removed cur rel) k))) p
            = map_of (files k) p)
    \<and> fst ` set (files (snd (apply_plan (refreshed cur rel) (added cur rel) (removed cur rel) k)))
        = fst ` set (files k)
    \<and> stdout (snd (apply_plan (refreshed cur rel) (added cur rel) (removed cur rel) k))
        = stdout k @ [Text (''Updating '' @ base). base \<leftarrow> cur]"
proof -
  let ?k = "bind ''to_copy'' k"
  have l: "refreshed cur rel = cur" "added cur rel = []" "removed cur rel = []"
    using assms(1) by (simp_all add: refreshed_def added_def removed_def)
  have ap: "apply_plan cur [] [] k = copy_loop cur ?k"
    by (cases "copy_loop cur ?k") (auto simp: apply_plan_def split: option.splits)
  have "fst (copy_loop cur ?k) = None"
    using assms(3) by (intro copy_loop_succeeds) simp
  then obtain k1 where k1: "copy_loop cur ?k = (None, k1)"
    by (cases "copy_loop cur ?k") simp
  have content: "map_of (files k1) (workspace_path base) = map_of (files k) (archive_path base)"
    if "base \<in> set cur" for base
    using copy_loop_map [OF k1, of base] that by simp
  have source: "map_of (files k) (archive_path base) \<noteq> None" if "base \<in> set cur" for base
    using assms(3) that by (simp add: map_of_eq_None_iff)
  have other: "map_of (files k1) p = map_of (files k) p" if "p \<notin> workspace_path ` set cur" for p
    using copy_loop_map [OF k1, of p p] that by simp
  have keys: "fst ` set (files k1) = fst ` set (files k)"
    using copy_loop_keys [of cur ?k] k1 assms(2) by auto
  have out: "stdout k1 = stdout k @ [Text (''Updating '' @ base). base \<leftarrow> cur]"
    using copy_loop_stdout [OF k1] by simp
  have r: "apply_plan (refreshed cur rel) (added cur rel) (removed cur rel) k = (None, k1)"
    using l ap k1 by simp
  show ?thesis
    unfolding r using l k1 content source other keys out by simp
qed

theorem identical_sets_witness:
  "set (released same_fs) = set (current same_fs)
   \<and> current same_fs = [''index.ipynb'', ''linear_program.ipynb'']
   \<and> workspace_path ''index.ipynb'' \<in> fst ` set (files (fresh same_fs))
   \<and> workspace_path ''linear_program.ipynb'' \<in> fst ` set (files (fresh same_fs))
   \<and> archive_path ''index.ipynb'' \<in> fst ` set (files (fresh same_fs))
   \<and> archive_path ''linear_program.ipynb'' \<in> fst ` set (files (fresh same_fs))
   \<and> refreshed (current same_fs) (released same_fs) = current same_fs
   \<and> added (current same_fs) (released same_fs) = []
   \<and> removed (current same_fs) (released same_fs) = []
   \<and> fst (apply_plan (refreshed (current same_fs) (released same_fs))
        (added (current same_fs) (released same_fs))
        (removed (current same_fs) (released same_fs)) (fresh same_fs)) = None
   \<and> map_of (files (fresh same_fs)) (workspace_path ''index.ipynb'') = Some ''index (workspace)''
   \<and> map_of (files (snd (apply_plan (refreshed (current same_fs) (released same_fs))
        (added (current same_fs) (released same_fs))
        (removed (current same_fs) (released same_fs)) (fresh same_fs))))
        (workspace_path ''index.ipynb'') = Some ''index (released)''
   \<and> map_of (files (snd (apply_plan (refreshed (current same_fs) (released same_fs))
        (added (current same_fs) (released same_fs))
        (removed (current same_fs) (released same_fs)) (fresh same_fs))))
        (workspace_path ''linear_program.ipynb'') = Some ''lp (released)''
   \<and> fst ` set (files (snd (apply_plan (refreshed (current same_fs) (released same_fs))
        (added (current same_fs) (released same_fs))
        (removed (current same_fs) (released same_fs)) (fresh same_fs))))
       = fst ` set (files (fresh same_fs))
   \<and> stdout (snd (apply_plan (refreshed (current same_fs) (released same_fs))
        (added (current same_fs) (released same_fs))
        (removed (current same_fs) (released same_fs)) (fresh same_fs)))
       = [Text ''Updating index.ipynb'', Text ''Updating linear_program.ipynb'']"
proof -
  let ?ap = "apply_plan (refreshed (current same_fs) (released same_fs))
        (added (current same_fs) (released same_fs))
        (removed (current same_fs) (released same_fs)) (fresh same_fs)"
  have c: "current same_fs = [''index.ipynb'', ''linear_program.ipynb'']"
    by code_simp
  have r: "released same_fs = [''index.ipynb'', ''linear_program.ipynb'']"
    by code_simp
  have h1: "set (released same_fs) = set (current same_fs)"
    by (simp add: c r)
  have h2: "\<forall>base \<in> set (current same_fs). workspace_path base \<in> fst ` set (files (fresh same_fs))"
    using current_in_workspace by (simp add: fresh_def)
  have h3: "\<forall>base \<in> set (current same_fs). archive_path base \<in> fst ` set (files (fresh same_fs))"
    using released_in_archive h1 by (simp add: fresh_def)
  have p1: "workspace_path ''index.ipynb'' \<in> fst ` set (files (fresh same_fs))"
    using h2 c by simp
  have p2: "workspace_path ''linear_program.ipynb'' \<in> fst ` set (files (fresh same_fs))"
    using h2 c by simp
  have p3: "archive_path ''index.ipynb'' \<in> fst ` set (files (fresh same_fs))"
    using h3 c by simp
  have p4: "archive_path ''linear_program.ipynb'' \<in> fst ` set (files (fresh same_fs))"
    using h3 c by simp
  have before: "map_of (files (fresh same_fs)) (workspace_path ''index.ipynb'')
      = Some ''index (workspace)''"
    by code_simp
  have a1: "map_of (files (fresh same_fs)) (archive_path ''index.ipynb'') = Some ''index (released)''"
    by code_simp
  have a2: "map_of (files (fresh same_fs)) (archive_path ''linear_program.ipynb'')
      = Some ''lp (released)''"
    by code_simp
  note w = identical_sets [OF h1 h2 h3]
  have w1: "refreshed (current same_fs) (released same_fs) = current same_fs"
    and w2: "added (current same_fs) (released same_fs) = []"
    and w3: "removed (current same_fs) (released same_fs) = []"
    and w5: "fst ?ap = None"
    and w6: "\<forall>base \<in> set (current same_fs).
          map_of (files (snd ?ap)) (workspace_path base)
            = map_of (files (fresh same_fs)) (archive_path base)
          \<and> map_of (files (fresh same_fs)) (archive_path base) \<noteq> None"
    and w8: "fst ` set (files (snd ?ap)) = fst ` set (files (fresh same_fs))"
    and w9: "stdout (snd ?ap)
        = stdout (fresh same_fs) @ [Text (''Updating '' @ base). base \<leftarrow> current same_fs]"
    using w by blast+
  have c1: "map_of (files (snd ?ap)) (workspace_path ''index.ipynb'') = Some ''index (released)''"
    using w6 a1 by (simp add: c)
  have c2: "map_of (files (snd ?ap)) (workspace_path ''linear_program.ipynb'')
      = Some ''lp (released)''"
    using w6 a2 by (simp add: c)
  have o: "stdout (snd ?ap) = [Text ''Updating index.ipynb'', Text ''Updating linear_program.ipynb'']"
    using w9 by (simp add: c fresh_def)
  show ?thesis
    using h1 c p1 p2 p3 p4 w1 w2 w3 w5 before c1 c2 w8 o
    by (intro conjI) assumption+
qed

end
